theory Spec2Isabelle
  imports Complex_Main "HOL-Library.Sublist"
begin

section \<open>Strings of the extension's background script\<close>

text \<open>
  Text is a list of 8-bit characters. The ASCII range behaves as in JavaScript; a character
  above 127 is neither a letter, a digit nor white space, and case mapping leaves it alone.
  A JavaScript number is a rational: the non-finite values (NaN, the infinities) and the
  rounding of binary floating point are outside the model.
\<close>

definition char_code :: "char \<Rightarrow> nat" where
  "char_code c = of_char c"

definition is_upper :: "char \<Rightarrow> bool" where
  "is_upper c = (65 \<le> char_code c \<and> char_code c \<le> 90)"

definition is_lower :: "char \<Rightarrow> bool" where
  "is_lower c = (97 \<le> char_code c \<and> char_code c \<le> 122)"

definition is_digit :: "char \<Rightarrow> bool" where
  "is_digit c = (48 \<le> char_code c \<and> char_code c \<le> 57)"

text \<open>The class \<open>\w\<close> of a regular expression without the unicode flag.\<close>

definition is_word_char :: "char \<Rightarrow> bool" where
  "is_word_char c = (is_upper c \<or> is_lower c \<or> is_digit c \<or> c = CHR ''_'')"

text \<open>White space of \<open>String.prototype.trim\<close> in the ASCII range: tab, line feed,
  vertical tab, form feed, carriage return and space.\<close>

definition is_space :: "char \<Rightarrow> bool" where
  "is_space c = ((9 \<le> char_code c \<and> char_code c \<le> 13) \<or> char_code c = 32)"

definition lower_char :: "char \<Rightarrow> char" where
  "lower_char c = (if is_upper c then char_of (char_code c + 32) else c)"

definition toLowerCase :: "string \<Rightarrow> string" where
  "toLowerCase s = map lower_char s"

definition trim :: "string \<Rightarrow> string" where
  "trim s = rev (dropWhile is_space (rev (dropWhile is_space s)))"

fun starts_with :: "string \<Rightarrow> string \<Rightarrow> bool" where
  "starts_with [] s = True"
| "starts_with (k # ks) [] = False"
| "starts_with (k # ks) (c # cs) = (k = c \<and> starts_with ks cs)"

text \<open>\<open>s.includes(k)\<close>: \<open>k\<close> occurs in \<open>s\<close> at some position.\<close>

fun includes_str :: "string \<Rightarrow> string \<Rightarrow> bool" where
  "includes_str [] k = (k = [])"
| "includes_str (c # cs) k = (starts_with k (c # cs) \<or> includes_str cs k)"

text \<open>\<open>s.split(d)\<close> for a separator of one character: never empty, one piece more than
  there are separators.\<close>

fun split :: "char \<Rightarrow> string \<Rightarrow> string list" where
  "split d [] = [[]]"
| "split d (c # cs) =
     (if c = d then [] # split d cs
      else (case split d cs of [] \<Rightarrow> [[c]] | p # ps \<Rightarrow> (c # p) # ps))"

section \<open>calculateAIProbability\<close>

definition aiKeywords :: "string list" where
  "aiKeywords =
     [''artificial intelligence'', ''machine learning'', ''furthermore'',
      ''moreover'', ''delve into'', ''leverage'', ''utilize'', ''optimize'',
      ''paradigm'', ''comprehensive'', ''robust'', ''seamless'']"

definition formalWords :: "string list" where
  "formalWords = [''thus'', ''hence'', ''therefore'', ''consequently'']"

text \<open>One of the formal words, whatever its case, starts the rest of the text and is followed
  by a word boundary: the end of the text or a character outside \<open>\w\<close>.\<close>

definition formal_word_here :: "string \<Rightarrow> bool" where
  "formal_word_here rest =
     list_ex (\<lambda>w. starts_with w (toLowerCase rest) \<and>
                  (case drop (length w) rest of [] \<Rightarrow> True | c # cs \<Rightarrow> \<not> is_word_char c))
       formalWords"

text \<open>The test of \<open>/\b(thus|hence|therefore|consequently)\b/i\<close>; the first argument tells
  whether the character before the current position is in \<open>\w\<close> (false at the start).\<close>

fun formal_pattern_from :: "bool \<Rightarrow> string \<Rightarrow> bool" where
  "formal_pattern_from prev [] = False"
| "formal_pattern_from prev (c # cs) =
     ((\<not> prev \<and> formal_word_here (c # cs)) \<or> formal_pattern_from (is_word_char c) cs)"

definition formal_pattern :: "string \<Rightarrow> bool" where
  "formal_pattern text = formal_pattern_from False text"

text \<open>The \<open>forEach\<close> over the keywords: a tenth for each keyword the lowered text includes.\<close>

fun keyword_bonus :: "string \<Rightarrow> string list \<Rightarrow> rat \<Rightarrow> rat" where
  "keyword_bonus lowerText [] probability = probability"
| "keyword_bonus lowerText (keyword # ks) probability =
     keyword_bonus lowerText ks
       (if includes_str lowerText keyword then probability + 1 / 10 else probability)"

definition calculateAIProbability :: "string \<Rightarrow> rat \<Rightarrow> rat" where
  "calculateAIProbability text modelScore =
     (let probability = 3 / 10;
          lowerText = toLowerCase text;
          probability = keyword_bonus lowerText aiKeywords probability;
          probability = (if formal_pattern text then probability + 8 / 100 else probability);
          probability = (if length (split CHR '' '' text) > 25 then probability + 5 / 100
                         else probability);
          probability = probability + modelScore * (2 / 10)
      in min (max probability 0) 1)"

datatype level = high | medium | low

text \<open>The conditional of \<open>handleAnalyzeText\<close> that labels a result.\<close>

definition level_of :: "rat \<Rightarrow> level" where
  "level_of probability =
     (if probability > 7 / 10 then high else if probability > 4 / 10 then medium else low)"

section \<open>Splitting a text into sentences\<close>

definition is_terminator :: "char \<Rightarrow> bool" where
  "is_terminator c = (c = CHR ''.'' \<or> c = CHR ''!'' \<or> c = CHR ''?'')"

text \<open>\<open>text.match(/[^.!?]+[.!?]+/g) || []\<close>. A match cannot start on a terminator, so
  leading terminators are skipped; it takes the longest run of other characters and then
  the longest run of terminators; when the text ends before a terminator, no further match
  exists. The next search starts where the match ended.\<close>

function match_sentences :: "string \<Rightarrow> string list" where
  "match_sentences text =
     (let rest = dropWhile is_terminator text;
          body = takeWhile (\<lambda>c. \<not> is_terminator c) rest;
          after = dropWhile (\<lambda>c. \<not> is_terminator c) rest;
          marks = takeWhile is_terminator after
      in if body = [] \<or> marks = [] then []
         else (body @ marks) # match_sentences (dropWhile is_terminator after))"
  by pat_completeness auto
termination
proof (relation "measure length", goal_cases)
  case 1
  show ?case by simp
next
  case (2 t rest body aft marks)
  have "length (dropWhile is_terminator aft) \<le> length aft"
    by (rule length_dropWhile_le)
  moreover have "length body + length aft = length rest"
    using 2 by (metis length_append takeWhile_dropWhile_id)
  moreover have "length rest \<le> length t"
    using 2 by (simp add: length_dropWhile_le)
  moreover have "body \<noteq> []"
    using 2 by simp
  ultimately show ?case by (cases body) auto
qed

declare match_sentences.simps [simp del]

section \<open>State of the service worker\<close>

text \<open>An exception: \<open>new Error(message)\<close>.\<close>

datatype error = Error string

text \<open>The loaded pipeline: called on a sentence it gives the score and the label of its
  first output, or throws.\<close>

type_synonym classifier_fn = "string \<Rightarrow> error + (rat \<times> string)"

text \<open>The object pushed for a sentence; \<open>r_text\<close> is its property \<open>text\<close>, and so on.\<close>

record analysis_result =
  r_text :: string
  r_probability :: rat
  r_level :: level
  r_modelScore :: rat
  r_modelLabel :: string

text \<open>A feedback item, with the properties \<open>text\<close>, \<open>probability\<close>, \<open>level\<close>,
  \<open>feedbackType\<close>, \<open>url\<close> and \<open>timestamp\<close>.\<close>

record feedback_item =
  fb_text :: string
  fb_probability :: rat
  fb_level :: level
  fb_feedbackType :: string
  fb_url :: string
  fb_timestamp :: nat

record analysis_stats =
  n_total :: nat
  n_high :: nat
  n_medium :: nat
  n_low :: nat

text \<open>The keys of \<open>chrome.storage.local\<close> that the background script uses; \<open>None\<close> is
  a key never set. The storage calls themselves are taken to succeed.\<close>

record local_storage =
  st_modelLoaded :: "bool option"
  st_modelLoadTime :: "nat option"
  st_feedbackData :: "feedback_item list option"
  st_analysisStats :: "analysis_stats option"

text \<open>The globals \<open>classifier\<close>, \<open>modelLoaded\<close> and \<open>modelLoadingPromise\<close> (\<open>None\<close> is
  \<open>null\<close>; a promise is recorded by the value it settles to), the storage, and the list
  of the texts on which the classifier was called so far, oldest first.\<close>

record bg_state =
  classifier :: "classifier_fn option"
  modelLoaded :: bool
  modelLoadingPromise :: "(error + unit) option"
  storage :: local_storage
  engineCalls :: "string list"

datatype fetch_outcome = NetworkError string | Response nat

text \<open>What the platform answers: the outcome of importing Transformers.js and building the
  pipeline, \<open>Date.now()\<close>, the outcome of a \<open>fetch\<close> of a feedback batch, and the host
  name that \<open>new URL(url)\<close> finds (\<open>None\<close> when it throws).\<close>

record env =
  pipeline :: "error + classifier_fn"
  now :: nat
  fetch :: "feedback_item list \<Rightarrow> fetch_outcome"
  hostname :: "string \<Rightarrow> string option"

definition initial_storage :: local_storage where
  "initial_storage =
     \<lparr>st_modelLoaded = None, st_modelLoadTime = None, st_feedbackData = None,
      st_analysisStats = None\<rparr>"

definition initial_state :: bg_state where
  "initial_state =
     \<lparr>classifier = None, modelLoaded = False, modelLoadingPromise = None,
      storage = initial_storage, engineCalls = []\<rparr>"

section \<open>initializeModel\<close>

text \<open>The \<open>catch\<close> block of the loader: the flag is reset and stored, the error is thrown
  again, so the promise kept in \<open>modelLoadingPromise\<close> is rejected.\<close>

definition load_failed :: "error \<Rightarrow> bg_state \<Rightarrow> (error + unit) \<times> bg_state" where
  "load_failed err s =
     (Inl err,
      s\<lparr>modelLoaded := False,
        storage := (storage s)\<lparr>st_modelLoaded := Some False\<rparr>,
        modelLoadingPromise := Some (Inl err)\<rparr>)"

definition warmUpText :: string where
  "warmUpText = ''This is a test sentence.''"

definition initializeModel :: "env \<Rightarrow> bg_state \<Rightarrow> (error + unit) \<times> bg_state" where
  "initializeModel e s =
     (case modelLoadingPromise s of
        Some p \<Rightarrow> (p, s)
      | None \<Rightarrow>
          (case pipeline e of
             Inl err \<Rightarrow> load_failed err s
           | Inr c \<Rightarrow>
               (let s1 = s\<lparr>classifier := Some c, modelLoaded := True,
                           storage := (storage s)\<lparr>st_modelLoaded := Some True,
                                                  st_modelLoadTime := Some (now e)\<rparr>\<rparr>;
                    s2 = s1\<lparr>engineCalls := engineCalls s1 @ [warmUpText]\<rparr>
                in case c warmUpText of
                     Inl err \<Rightarrow> load_failed err s2
                   | Inr out \<Rightarrow> (Inr (), s2\<lparr>modelLoadingPromise := Some (Inr ())\<rparr>))))"

section \<open>handleAnalyzeText\<close>

text \<open>The callback of \<open>batch.map\<close>: \<open>None\<close> is \<open>null\<close>.\<close>

definition analyze_sentence ::
  "classifier_fn \<Rightarrow> string \<Rightarrow> string list \<Rightarrow> analysis_result option \<times> string list" where
  "analyze_sentence c sentence calls =
     (let trimmed = trim sentence in
      if length trimmed < 15 then (None, calls)
      else (case c trimmed of
              Inl err \<Rightarrow> (None, calls @ [trimmed])
            | Inr (score, label) \<Rightarrow>
                (let probability = calculateAIProbability trimmed score in
                 (Some \<lparr>r_text = trimmed, r_probability = probability,
                        r_level = level_of probability, r_modelScore = score,
                        r_modelLabel = label\<rparr>,
                  calls @ [trimmed]))))"

fun analyze_batch ::
  "classifier_fn \<Rightarrow> string list \<Rightarrow> string list \<Rightarrow> analysis_result option list \<times> string list" where
  "analyze_batch c [] calls = ([], calls)"
| "analyze_batch c (sentence # rest) calls =
     (let (r, calls1) = analyze_sentence c sentence calls;
          (rs, calls2) = analyze_batch c rest calls1
      in (r # rs, calls2))"

definition batchSize :: nat where
  "batchSize = 5"

text \<open>The \<open>for\<close> loop over the batches; \<open>List.map_filter id\<close> drops the \<open>null\<close>s.\<close>

function analyze_batches ::
  "classifier_fn \<Rightarrow> string list \<Rightarrow> nat \<Rightarrow> analysis_result list \<Rightarrow> string list
     \<Rightarrow> analysis_result list \<times> string list" where
  "analyze_batches c sentences i results calls =
     (if i < length sentences then
        (let batch = take batchSize (drop i sentences);
             (batchResults, calls1) = analyze_batch c batch calls
         in analyze_batches c sentences (i + batchSize)
              (results @ List.map_filter id batchResults) calls1)
      else (results, calls))"
  by pat_completeness auto
termination
  by (relation "measure (\<lambda>(c, sentences, i, results, calls). length sentences - i)")
     (auto simp: batchSize_def)

declare analyze_batches.simps [simp del]

definition count_result :: "analysis_stats \<Rightarrow> analysis_result \<Rightarrow> analysis_stats" where
  "count_result a r =
     (let a1 = a\<lparr>n_total := n_total a + 1\<rparr> in
      case r_level r of
        high \<Rightarrow> a1\<lparr>n_high := n_high a1 + 1\<rparr>
      | medium \<Rightarrow> a1\<lparr>n_medium := n_medium a1 + 1\<rparr>
      | low \<Rightarrow> a1\<lparr>n_low := n_low a1 + 1\<rparr>)"

definition updateAnalysisStats :: "analysis_result list \<Rightarrow> local_storage \<Rightarrow> local_storage" where
  "updateAnalysisStats results st =
     (let analysisStats =
            (case st_analysisStats st of
               None \<Rightarrow> \<lparr>n_total = 0, n_high = 0, n_medium = 0, n_low = 0\<rparr>
             | Some a \<Rightarrow> a)
      in st\<lparr>st_analysisStats := Some (foldl count_result analysisStats results)\<rparr>)"

text \<open>The unused parameter \<open>tabId\<close> is left out, and so are the console and the progress
  messages, which nothing reads back.\<close>

definition handleAnalyzeText ::
  "env \<Rightarrow> bg_state \<Rightarrow> string \<Rightarrow> (error + analysis_result list) \<times> bg_state" where
  "handleAnalyzeText e s text =
     (let (loaded, s1) = (if \<not> modelLoaded s then initializeModel e s else (Inr (), s)) in
      case loaded of
        Inl err \<Rightarrow> (Inl err, s1)
      | Inr u \<Rightarrow>
          (case classifier s1 of
             None \<Rightarrow> (Inl (Error ''Model not available''), s1)
           | Some c \<Rightarrow>
               (let sentences = match_sentences text in
                if length sentences = 0 then (Inr [], s1)
                else
                  (let (results, calls) = analyze_batches c sentences 0 [] (engineCalls s1);
                       s2 = s1\<lparr>engineCalls := calls\<rparr>;
                       s3 = s2\<lparr>storage := updateAnalysisStats results (storage s2)\<rparr>
                   in (Inr results, s3)))))"

text \<open>What a scan computes when the model is loaded: the trimmed sentences that reach the
  classifier, and the object built from the classifier's answer.\<close>

definition eligible_sentences :: "string \<Rightarrow> string list" where
  "eligible_sentences text = filter (\<lambda>t. \<not> length t < 15) (map trim (match_sentences text))"

definition result_for :: "classifier_fn \<Rightarrow> string \<Rightarrow> analysis_result option" where
  "result_for c trimmed =
     (case c trimmed of
        Inl err \<Rightarrow> None
      | Inr (score, label) \<Rightarrow>
          Some \<lparr>r_text = trimmed, r_probability = calculateAIProbability trimmed score,
                r_level = level_of (calculateAIProbability trimmed score),
                r_modelScore = score, r_modelLabel = label\<rparr>)"

definition analysis_of :: "classifier_fn \<Rightarrow> string \<Rightarrow> analysis_result list" where
  "analysis_of c text = List.map_filter (result_for c) (eligible_sentences text)"

section \<open>handleFeedback and sendFeedbackToBackend\<close>

definition anonymizeURL :: "env \<Rightarrow> string \<Rightarrow> string" where
  "anonymizeURL e url = (case hostname e url of Some h \<Rightarrow> h | None \<Rightarrow> ''unknown'')"

definition response_ok :: "nat \<Rightarrow> bool" where
  "response_ok status = (200 \<le> status \<and> status \<le> 299)"

text \<open>Every path ends without an exception: a network error is caught and only warned
  about, and a response that is not ok is only warned about.\<close>

definition sendFeedbackToBackend :: "env \<Rightarrow> feedback_item list \<Rightarrow> error + unit" where
  "sendFeedbackToBackend e feedbackArray =
     (let body = map (\<lambda>f. f\<lparr>fb_url := anonymizeURL e (fb_url f)\<rparr>) feedbackArray in
      case fetch e body of
        NetworkError msg \<Rightarrow> Inr ()
      | Response status \<Rightarrow> (if response_ok status then Inr () else Inr ()))"

definition handleFeedback ::
  "env \<Rightarrow> bg_state \<Rightarrow> feedback_item \<Rightarrow> (error + unit) \<times> bg_state" where
  "handleFeedback e s feedback =
     (let feedbackData = (case st_feedbackData (storage s) of None \<Rightarrow> [] | Some d \<Rightarrow> d);
          feedbackData = feedbackData @ [feedback\<lparr>fb_timestamp := now e\<rparr>];
          s1 = s\<lparr>storage := (storage s)\<lparr>st_feedbackData := Some feedbackData\<rparr>\<rparr>
      in if length feedbackData \<ge> 10 then
           (case sendFeedbackToBackend e feedbackData of
              Inl err \<Rightarrow> (Inl err, s1)
            | Inr u \<Rightarrow> (Inr (), s1\<lparr>storage := (storage s1)\<lparr>st_feedbackData := Some []\<rparr>\<rparr>))
         else (Inr (), s1))"

text \<open>The \<open>handleFeedback\<close> of the background script that the setup script writes
  (\<open>backend/server.js\<close>, in the here-document for \<open>background.js\<close>): the stored items are
  cleared inside the \<open>try\<close>, after the \<open>fetch\<close>, so a \<open>fetch\<close> that throws leaves them.\<close>

definition handleFeedback_setup ::
  "env \<Rightarrow> bg_state \<Rightarrow> feedback_item \<Rightarrow> (error + unit) \<times> bg_state" where
  "handleFeedback_setup e s feedback =
     (let feedbackData = (case st_feedbackData (storage s) of None \<Rightarrow> [] | Some d \<Rightarrow> d);
          feedbackData = feedbackData @ [feedback\<lparr>fb_timestamp := now e\<rparr>];
          s1 = s\<lparr>storage := (storage s)\<lparr>st_feedbackData := Some feedbackData\<rparr>\<rparr>
      in if length feedbackData \<ge> 10 then
           (case fetch e feedbackData of
              NetworkError msg \<Rightarrow> (Inr (), s1)
            | Response status \<Rightarrow>
                (Inr (), s1\<lparr>storage := (storage s1)\<lparr>st_feedbackData := Some []\<rparr>\<rparr>))
         else (Inr (), s1))"

section \<open>Values that cross a message or an HTTP boundary\<close>

datatype json =
  JNull | JBool bool | JNum rat | JStr string | JArr "json list" | JObj "(string \<times> json) list"

text \<open>Reading a property: \<open>None\<close> is \<open>undefined\<close>. Of a repeated key the last one counts,
  as after \<open>JSON.parse\<close>.\<close>

fun get_prop :: "json \<Rightarrow> string \<Rightarrow> json option" where
  "get_prop (JObj members) k = map_of (rev members) k"
| "get_prop v k = None"

fun keys_of :: "json \<Rightarrow> string list" where
  "keys_of (JObj members) = map fst members"
| "keys_of v = []"

fun truthy :: "json \<Rightarrow> bool" where
  "truthy JNull = False"
| "truthy (JBool b) = b"
| "truthy (JNum n) = (n \<noteq> 0)"
| "truthy (JStr s) = (s \<noteq> [])"
| "truthy (JArr vs) = True"
| "truthy (JObj members) = True"

text \<open>\<open>v || d\<close>.\<close>

definition or_default :: "json option \<Rightarrow> json \<Rightarrow> json" where
  "or_default v d = (case v of None \<Rightarrow> d | Some x \<Rightarrow> if truthy x then x else d)"

fun level_name :: "level \<Rightarrow> string" where
  "level_name high = ''high''"
| "level_name medium = ''medium''"
| "level_name low = ''low''"

text \<open>The object literal that \<open>handleAnalyzeText\<close> returns for a sentence, and the array
  it resolves to.\<close>

definition result_json :: "analysis_result \<Rightarrow> json" where
  "result_json r =
     JObj [(''text'', JStr (r_text r)),
           (''probability'', JNum (r_probability r)),
           (''level'', JStr (level_name (r_level r))),
           (''modelScore'', JNum (r_modelScore r)),
           (''modelLabel'', JStr (r_modelLabel r))]"

definition results_json :: "analysis_result list \<Rightarrow> json" where
  "results_json results = JArr (map result_json results)"

text \<open>The listener's answer to an \<open>analyzeText\<close> message: \<open>{success: true, result}\<close>, or
  \<open>{success: false, error: error.message}\<close> when \<open>handleAnalyzeText\<close> throws.\<close>

definition analyzeText_reply :: "error + analysis_result list \<Rightarrow> json" where
  "analyzeText_reply r =
     (case r of
        Inr result \<Rightarrow> JObj [(''success'', JBool True), (''result'', results_json result)]
      | Inl (Error message) \<Rightarrow> JObj [(''success'', JBool False), (''error'', JStr message)])"

section \<open>The feedback server\<close>

text \<open>An element of the server's array \<open>feedback\<close>; \<open>e_length\<close> is its property
  \<open>length\<close>, and so on.\<close>

record feedback_record =
  e_text_hash :: json
  e_length :: json
  e_model_version :: json
  e_score :: json
  e_feedback :: json
  e_timestamp :: string

text \<open>\<open>POST /api/feedback\<close>: \<open>isoNow\<close> is \<open>new Date().toISOString()\<close>, \<open>data\<close> the members of
  the parsed body (a body that is an array has none of the properties read here).\<close>

definition post_feedback ::
  "string \<Rightarrow> (string \<times> json) list \<Rightarrow> feedback_record list \<Rightarrow> json \<times> feedback_record list" where
  "post_feedback isoNow data feedback =
     (let feedback1 = feedback @
            [\<lparr>e_text_hash = or_default (get_prop (JObj data) ''text_hash'') (JStr []),
              e_length = or_default (get_prop (JObj data) ''text_length'') (JNum 0),
              e_model_version = or_default (get_prop (JObj data) ''model_version'') (JStr ''v0''),
              e_score = or_default (get_prop (JObj data) ''score'') (JNum 0),
              e_feedback = or_default (get_prop (JObj data) ''feedback'') (JStr []),
              e_timestamp = isoNow\<rparr>]
      in (JObj [(''status'', JStr ''received''), (''count'', JNum (of_nat (length feedback1)))],
          feedback1))"

text \<open>A sequence of posts, each with its time and body, oldest first.\<close>

fun post_all ::
  "(string \<times> (string \<times> json) list) list \<Rightarrow> feedback_record list \<Rightarrow> feedback_record list" where
  "post_all [] feedback = feedback"
| "post_all ((isoNow, data) # requests) feedback =
     post_all requests (snd (post_feedback isoNow data feedback))"

section \<open>Where the sentences lie in the text\<close>

text \<open>The sentences are found one after the other, the first one after the leading
  terminators: the offsets at which each begins and ends.\<close>

fun spans_from :: "nat \<Rightarrow> string list \<Rightarrow> (nat \<times> nat) list" where
  "spans_from start [] = []"
| "spans_from start (s # ss) = (start, start + length s) # spans_from (start + length s) ss"

definition sentence_spans :: "string \<Rightarrow> (nat \<times> nat) list" where
  "sentence_spans text =
     spans_from (length (takeWhile is_terminator text)) (match_sentences text)"

definition slice :: "string \<Rightarrow> nat \<times> nat \<Rightarrow> string" where
  "slice text sp = take (snd sp - fst sp) (drop (fst sp) text)"

section \<open>What the specification asks of a scan result\<close>

text \<open>The record \<open>{highlights: Highlight[], rulesetVersion: string, servedFromCache: bool}\<close>
  of the exposed operation.\<close>

definition is_getOrScan_record :: "json \<Rightarrow> bool" where
  "is_getOrScan_record v =
     ((case get_prop v ''highlights'' of Some (JArr hs) \<Rightarrow> True | _ \<Rightarrow> False) \<and>
      (case get_prop v ''rulesetVersion'' of Some (JStr ver) \<Rightarrow> True | _ \<Rightarrow> False) \<and>
      (case get_prop v ''servedFromCache'' of Some (JBool b) \<Rightarrow> True | _ \<Rightarrow> False))"

text \<open>The invariant \<open>0 <= startOffset < endOffset <= len(text)\<close> of a highlight.\<close>

definition offsets_valid :: "nat \<Rightarrow> json \<Rightarrow> bool" where
  "offsets_valid len h =
     (case (get_prop h ''startOffset'', get_prop h ''endOffset'') of
        (Some (JNum a), Some (JNum b)) \<Rightarrow> 0 \<le> a \<and> a < b \<and> b \<le> of_nat len
      | _ \<Rightarrow> False)"

section \<open>Content Key Deriver\<close>

text \<open>Modelled from the spec: the Content Key Deriver (\<open>normalize\<close>, here \<open>normalize_text\<close>, and \<open>deriveKey\<close>), which
  the sources do not contain. Normalization collapses consecutive white space to a single
  space and trims leading and trailing white space; the key is the hash of the normalized
  text, the hash function being a parameter.\<close>

function collapse_ws :: "string \<Rightarrow> string" where
  "collapse_ws [] = []"
| "collapse_ws (c # cs) =
     (if is_space c then CHR '' '' # collapse_ws (dropWhile is_space cs)
      else c # collapse_ws cs)"
  by pat_completeness auto
termination
  by (relation "measure length") (auto simp: less_Suc_eq_le length_dropWhile_le)

definition normalize_text :: "string \<Rightarrow> string" where
  "normalize_text t = trim (collapse_ws t)"

definition deriveKey :: "(string \<Rightarrow> 'k) \<Rightarrow> string \<Rightarrow> 'k" where
  "deriveKey hash t = hash (normalize_text t)"

text \<open>A text in which every white space character is a single space standing alone.\<close>

fun sparse :: "string \<Rightarrow> bool" where
  "sparse [] = True"
| "sparse [c] = (is_space c \<longrightarrow> c = CHR '' '')"
| "sparse (c # d # cs) = ((is_space c \<longrightarrow> c = CHR '' '' \<and> \<not> is_space d) \<and> sparse (d # cs))"

section \<open>A scenario\<close>

definition example_classifier :: classifier_fn where
  "example_classifier t = Inr (9 / 10, ''POSITIVE'')"


definition example_env :: env where
  "example_env =
     \<lparr>pipeline = Inr example_classifier, now = 1700000000000,
      fetch = (\<lambda>body. Response 200), hostname = (\<lambda>url. Some ''example.org'')\<rparr>"

definition offline_env :: env where
  "offline_env =
     example_env\<lparr>pipeline := Inl (Error ''Failed to fetch''),
                 fetch := (\<lambda>body. NetworkError ''Failed to fetch'')\<rparr>"

definition example_loaded :: bg_state where
  "example_loaded = snd (initializeModel example_env initial_state)"

definition example_text :: string where
  "example_text = ''This sentence is long enough.''"

definition two_sentences :: string where
  "two_sentences = ''This sentence is long enough. Thus we leverage a robust paradigm!''"

definition three_posts :: "(string \<times> (string \<times> json) list) list" where
  "three_posts =
     [(''2024-01-01T00:00:00.000Z'', [(''text_hash'', JStr ''a1''), (''score'', JNum (9 / 10))]),
      (''2024-01-01T00:00:01.000Z'', [(''text_hash'', JStr ''b2''), (''score'', JNum (1 / 2))]),
      (''2024-01-01T00:00:02.000Z'', [(''text_hash'', JStr ''c3'')])]"

definition example_feedback :: feedback_item where
  "example_feedback =
     \<lparr>fb_text = ''This sentence is long enough.'', fb_probability = 12 / 25,
      fb_level = medium, fb_feedbackType = ''agree'',
      fb_url = ''https://example.org/page'', fb_timestamp = 0\<rparr>"

text \<open>The loaded worker with nine feedback items in the storage.\<close>

definition nine_stored :: bg_state where
  "nine_stored =
     example_loaded\<lparr>storage :=
       (storage example_loaded)\<lparr>st_feedbackData := Some (replicate 9 example_feedback)\<rparr>\<rparr>"

section \<open>Properties\<close>

subsection \<open>The loop over the batches\<close>

lemma analyze_sentence_eq:
  "analyze_sentence c sentence calls =
     (if length (trim sentence) < 15 then (None, calls)
      else (result_for c (trim sentence), calls @ [trim sentence]))"
  by (simp add: analyze_sentence_def result_for_def Let_def split: sum.splits prod.splits)

lemma analyze_batch_eq:
  "analyze_batch c batch calls =
     (map (\<lambda>s. if length (trim s) < 15 then None else result_for c (trim s)) batch,
      calls @ filter (\<lambda>t. \<not> length t < 15) (map trim batch))"
  by (induction batch arbitrary: calls) (simp_all add: analyze_sentence_eq)

lemma map_filter_results:
  "List.map_filter id (map (\<lambda>s. if length (trim s) < 15 then None else f (trim s)) batch) =
   List.map_filter f (filter (\<lambda>t. \<not> length t < 15) (map trim batch))"
  by (induction batch) (simp_all add: List.map_filter_simps split: option.splits)

lemma map_filter_append:
  "List.map_filter f (xs @ ys) = List.map_filter f xs @ List.map_filter f ys"
  by (simp add: List.map_filter_def)

lemma analyze_batches_eq:
  "analyze_batches c sentences i results calls =
     (results @ List.map_filter (result_for c)
                  (filter (\<lambda>t. \<not> length t < 15) (map trim (drop i sentences))),
      calls @ filter (\<lambda>t. \<not> length t < 15) (map trim (drop i sentences)))"
proof (induction c sentences i results calls rule: analyze_batches.induct)
  case (1 c sentences i results calls)
  show ?case
  proof (cases "i < length sentences")
    case False
    then show ?thesis by (simp add: analyze_batches.simps [of c sentences i])
  next
    case True
    define batch where "batch = take batchSize (drop i sentences)"
    have split: "drop i sentences = batch @ drop (i + batchSize) sentences"
      unfolding batch_def by (metis add.commute append_take_drop_id drop_drop)
    have "analyze_batches c sentences i results calls =
        analyze_batches c sentences (i + batchSize)
          (results @ List.map_filter id (fst (analyze_batch c batch calls)))
          (snd (analyze_batch c batch calls))"
      using True by (simp add: analyze_batches.simps [of c sentences i] batch_def Let_def split: prod.splits)
    also have "\<dots> = (results @ List.map_filter id (fst (analyze_batch c batch calls)) @
          List.map_filter (result_for c)
            (filter (\<lambda>t. \<not> length t < 15) (map trim (drop (i + batchSize) sentences))),
        snd (analyze_batch c batch calls) @
          filter (\<lambda>t. \<not> length t < 15) (map trim (drop (i + batchSize) sentences)))"
      using "1.IH" [OF True batch_def prod.collapse]
      by simp
    also have "\<dots> = (results @ List.map_filter (result_for c)
                  (filter (\<lambda>t. \<not> length t < 15) (map trim (drop i sentences))),
      calls @ filter (\<lambda>t. \<not> length t < 15) (map trim (drop i sentences)))"
      by (simp add: split analyze_batch_eq map_filter_results map_filter_append)
    finally show ?thesis .
  qed
qed

lemma analyze_batches_all:
  "analyze_batches c (match_sentences text) 0 [] calls =
     (analysis_of c text, calls @ eligible_sentences text)"
  by (simp add: analyze_batches_eq analysis_of_def eligible_sentences_def)

lemma eligible_sentences_none:
  "match_sentences text = [] \<Longrightarrow> eligible_sentences text = []"
  by (simp add: eligible_sentences_def)

lemma analysis_of_none:
  "match_sentences text = [] \<Longrightarrow> analysis_of c text = []"
  by (simp add: analysis_of_def eligible_sentences_none List.map_filter_simps)

lemma handleAnalyzeText_loaded_eq:
  assumes "modelLoaded s" and "classifier s = Some c"
  shows "handleAnalyzeText e s text =
     (if match_sentences text = [] then (Inr [], s)
      else (Inr (analysis_of c text),
            s\<lparr>engineCalls := engineCalls s @ eligible_sentences text,
              storage := updateAnalysisStats (analysis_of c text) (storage s)\<rparr>))"
  unfolding handleAnalyzeText_def using assms
  by (simp add: analyze_batches_all)

lemma handleAnalyzeText_loaded:
  assumes "modelLoaded s" and "classifier s = Some c"
  shows "fst (handleAnalyzeText e s text) = Inr (analysis_of c text)"
    and "engineCalls (snd (handleAnalyzeText e s text)) = engineCalls s @ eligible_sentences text"
    and "classifier (snd (handleAnalyzeText e s text)) = Some c"
    and "modelLoaded (snd (handleAnalyzeText e s text))"
    and "modelLoadingPromise (snd (handleAnalyzeText e s text)) = modelLoadingPromise s"
  using assms
  by (simp_all add: handleAnalyzeText_loaded_eq [OF assms] analysis_of_none eligible_sentences_none)

subsection \<open>The scenario\<close>

lemma example_loaded_facts:
  "modelLoaded example_loaded"
  "classifier example_loaded = Some example_classifier"
  "engineCalls example_loaded = [warmUpText]"
  "modelLoadingPromise example_loaded = Some (Inr ())"
  by (simp_all add: example_loaded_def initializeModel_def initial_state_def example_env_def
      example_classifier_def load_failed_def Let_def)

lemma eligible_example_text: "eligible_sentences example_text = [example_text]"
  by code_simp


lemma analysis_example_text:
  "analysis_of example_classifier example_text =
     [\<lparr>r_text = ''This sentence is long enough.'', r_probability = 12 / 25,
       r_level = medium, r_modelScore = 9 / 10, r_modelLabel = ''POSITIVE''\<rparr>]"
  by code_simp


subsection \<open>Sentences as stretches of the text\<close>

lemma match_sentences_unfold:
  "match_sentences text =
     (if takeWhile (\<lambda>c. \<not> is_terminator c) (dropWhile is_terminator text) = [] \<or>
         takeWhile is_terminator
           (dropWhile (\<lambda>c. \<not> is_terminator c) (dropWhile is_terminator text)) = []
      then []
      else (takeWhile (\<lambda>c. \<not> is_terminator c) (dropWhile is_terminator text) @
            takeWhile is_terminator
              (dropWhile (\<lambda>c. \<not> is_terminator c) (dropWhile is_terminator text))) #
           match_sentences
             (dropWhile is_terminator
               (dropWhile (\<lambda>c. \<not> is_terminator c) (dropWhile is_terminator text))))"
  by (subst match_sentences.simps) (simp add: Let_def)

lemma match_sentences_decomp:
  "\<exists>tail. dropWhile is_terminator text = concat (match_sentences text) @ tail"
proof (induction "text" rule: match_sentences.induct)
  case (1 t)
  define rest where "rest = dropWhile is_terminator t"
  define body where "body = takeWhile (\<lambda>c. \<not> is_terminator c) rest"
  define aft where "aft = dropWhile (\<lambda>c. \<not> is_terminator c) rest"
  define marks where "marks = takeWhile is_terminator aft"
  show ?case
  proof (cases "body = [] \<or> marks = []")
    case True
    then have "match_sentences t = []"
      by (subst match_sentences_unfold) (simp add: rest_def body_def aft_def marks_def)
    then show ?thesis by simp
  next
    case False
    from "1" [OF rest_def body_def aft_def marks_def False]
    obtain tail where tail: "dropWhile is_terminator aft =
        concat (match_sentences (dropWhile is_terminator aft)) @ tail"
      by auto
    have unfold: "match_sentences t = (body @ marks) # match_sentences (dropWhile is_terminator aft)"
      using False
      by (subst match_sentences_unfold) (simp add: rest_def body_def aft_def marks_def)
    have "rest = body @ aft"
      by (simp add: body_def aft_def)
    moreover have "aft = marks @ dropWhile is_terminator aft"
      by (simp add: marks_def)
    ultimately have "rest = concat (match_sentences t) @ tail"
      using tail unfold by simp
    then show ?thesis unfolding rest_def by blast
  qed
qed

lemma match_sentences_nonempty:
  "s \<in> set (match_sentences text) \<Longrightarrow> s \<noteq> []"
proof (induction "text" rule: match_sentences.induct)
  case (1 t)
  define rest where "rest = dropWhile is_terminator t"
  define body where "body = takeWhile (\<lambda>c. \<not> is_terminator c) rest"
  define aft where "aft = dropWhile (\<lambda>c. \<not> is_terminator c) rest"
  define marks where "marks = takeWhile is_terminator aft"
  show ?case
  proof (cases "body = [] \<or> marks = []")
    case True
    then have "match_sentences t = []"
      by (subst match_sentences_unfold) (simp add: rest_def body_def aft_def marks_def)
    with "1.prems" show ?thesis by simp
  next
    case False
    have unfold: "match_sentences t = (body @ marks) # match_sentences (dropWhile is_terminator aft)"
      using False
      by (subst match_sentences_unfold) (simp add: rest_def body_def aft_def marks_def)
    with "1.prems" have "s = body @ marks \<or> s \<in> set (match_sentences (dropWhile is_terminator aft))"
      by simp
    then show ?thesis
    proof
      assume "s = body @ marks"
      with False show ?thesis by simp
    next
      assume "s \<in> set (match_sentences (dropWhile is_terminator aft))"
      then show ?thesis
        by (rule "1.IH" [OF rest_def body_def aft_def marks_def False])
    qed
  qed
qed

lemma spans_from_start:
  "sp \<in> set (spans_from start ss) \<Longrightarrow> start \<le> fst sp"
proof (induction ss arbitrary: start)
  case Nil
  then show ?case by simp
next
  case (Cons s ss)
  then show ?case by fastforce
qed

lemma spans_from_props:
  assumes "text = pre @ concat ss @ tail" and "\<forall>s \<in> set ss. s \<noteq> []"
  shows "map (slice text) (spans_from (length pre) ss) = ss \<and>
         list_all (\<lambda>(a, b). a < b \<and> b \<le> length text) (spans_from (length pre) ss) \<and>
         sorted_wrt (\<lambda>(a, b) (a', b'). b \<le> a') (spans_from (length pre) ss)"
  using assms
proof (induction ss arbitrary: pre)
  case Nil
  then show ?case by simp
next
  case (Cons s ss)
  have whole: "text = (pre @ s) @ concat ss @ tail"
    using Cons.prems(1) by simp
  have rest: "\<forall>s \<in> set ss. s \<noteq> []" and s: "s \<noteq> []"
    using Cons.prems(2) by simp_all
  note IH = Cons.IH [OF whole rest]
  have here: "slice text (length pre, length pre + length s) = s"
    by (simp add: slice_def whole)
  have later: "\<forall>sp \<in> set (spans_from (length pre + length s) ss). length pre + length s \<le> fst sp"
    using spans_from_start by blast
  show ?case
    using IH here later s by (auto simp: whole)
qed

lemma sentence_spans_props:
  "map (slice text) (sentence_spans text) = match_sentences text \<and>
   list_all (\<lambda>(a, b). a < b \<and> b \<le> length text) (sentence_spans text) \<and>
   sorted_wrt (\<lambda>(a, b) (a', b'). b \<le> a') (sentence_spans text)"
proof -
  obtain tail where "dropWhile is_terminator text = concat (match_sentences text) @ tail"
    using match_sentences_decomp by blast
  then have "text = takeWhile is_terminator text @ concat (match_sentences text) @ tail"
    by (metis takeWhile_dropWhile_id)
  moreover have "\<forall>s \<in> set (match_sentences text). s \<noteq> []"
    using match_sentences_nonempty by blast
  ultimately show ?thesis
    unfolding sentence_spans_def by (rule spans_from_props)
qed

subsection \<open>The results of a scan\<close>

lemma result_for_Some:
  "result_for c t = Some r \<Longrightarrow>
     r_text r = t \<and> c t = Inr (r_modelScore r, r_modelLabel r) \<and>
     r_probability r = calculateAIProbability t (r_modelScore r) \<and>
     r_level r = level_of (r_probability r)"
  by (auto simp: result_for_def split: sum.splits prod.splits)

lemma analysis_of_member:
  "r \<in> set (analysis_of c text) \<Longrightarrow>
     r_text r \<in> set (eligible_sentences text) \<and>
     c (r_text r) = Inr (r_modelScore r, r_modelLabel r) \<and>
     r_probability r = calculateAIProbability (r_text r) (r_modelScore r) \<and>
     r_level r = level_of (r_probability r)"
proof -
  assume "r \<in> set (analysis_of c text)"
  then obtain t where "t \<in> set (eligible_sentences text)" and "result_for c t = Some r"
    by (auto simp: analysis_of_def List.map_filter_def)
  then show ?thesis
    using result_for_Some by blast
qed

lemma analysis_of_texts:
  "map r_text (analysis_of c text) =
     filter (\<lambda>t. result_for c t \<noteq> None) (eligible_sentences text)"
proof -
  have "map r_text (List.map_filter (result_for c) ts) =
      filter (\<lambda>t. result_for c t \<noteq> None) ts" for ts
    by (induction ts) (auto simp: List.map_filter_simps dest: result_for_Some split: option.splits)
  then show ?thesis by (simp add: analysis_of_def)
qed

lemma analysis_of_subseq:
  "subseq (map r_text (analysis_of c text)) (map trim (match_sentences text))"
  unfolding analysis_of_texts eligible_sentences_def
  by (meson subseq_filter_left subseq_order.trans)

subsection \<open>The feedback store of the server\<close>

lemma post_feedback_appends:
  "\<exists>entry. snd (post_feedback isoNow data feedback) = feedback @ [entry]"
  by (simp add: post_feedback_def Let_def)

lemma post_feedback_count:
  "fst (post_feedback isoNow data feedback) =
     JObj [(''status'', JStr ''received''), (''count'', JNum (of_nat (length feedback + 1)))]"
  by (simp add: post_feedback_def Let_def)

lemma post_all_extends:
  "\<exists>added. post_all requests feedback = feedback @ added \<and> length added = length requests"
proof (induction requests arbitrary: feedback)
  case Nil
  show ?case by simp
next
  case (Cons request requests)
  obtain isoNow data where request: "request = (isoNow, data)"
    by (cases request)
  obtain entry where entry: "snd (post_feedback isoNow data feedback) = feedback @ [entry]"
    using post_feedback_appends by blast
  obtain added where "post_all requests (feedback @ [entry]) = (feedback @ [entry]) @ added"
    and "length added = length requests"
    using Cons.IH by blast
  then have "post_all (request # requests) feedback = feedback @ (entry # added) \<and>
      length (entry # added) = length (request # requests)"
    by (simp add: request entry)
  then show ?case by blast
qed

subsection \<open>A failed load\<close>

lemma initializeModel_settled:
  "modelLoadingPromise s = Some p \<Longrightarrow> initializeModel e s = (p, s)"
  by (simp add: initializeModel_def)

lemma handleAnalyzeText_after_failed_load:
  "\<not> modelLoaded s \<Longrightarrow> modelLoadingPromise s = Some (Inl err) \<Longrightarrow>
     handleAnalyzeText e s text = (Inl err, s)"
  by (simp add: handleAnalyzeText_def initializeModel_settled)

lemma offline_load:
  "initializeModel offline_env initial_state =
     (Inl (Error ''Failed to fetch''),
      initial_state\<lparr>modelLoaded := False,
        storage := initial_storage\<lparr>st_modelLoaded := Some False\<rparr>,
        modelLoadingPromise := Some (Inl (Error ''Failed to fetch''))\<rparr>)"
  by (simp add: initializeModel_def offline_env_def example_env_def initial_state_def
      load_failed_def)

subsection \<open>Feedback in the storage\<close>

lemma sendFeedbackToBackend_never_throws:
  "sendFeedbackToBackend e feedbackArray = Inr ()"
  by (simp add: sendFeedbackToBackend_def Let_def split: fetch_outcome.splits)

lemma handleFeedback_tenth:
  assumes "st_feedbackData (storage s) = Some d" and "9 \<le> length d"
  shows "handleFeedback e s feedback =
     (Inr (), s\<lparr>storage := (storage s)\<lparr>st_feedbackData := Some []\<rparr>\<rparr>)"
  using assms by (simp add: handleFeedback_def sendFeedbackToBackend_never_throws)

lemma handleFeedback_setup_offline:
  assumes "st_feedbackData (storage s) = Some d" and "9 \<le> length d"
    and "fetch e (d @ [feedback\<lparr>fb_timestamp := now e\<rparr>]) = NetworkError msg"
  shows "handleFeedback_setup e s feedback =
     (Inr (), s\<lparr>storage := (storage s)\<lparr>st_feedbackData :=
        Some (d @ [feedback\<lparr>fb_timestamp := now e\<rparr>])\<rparr>\<rparr>)"
  using assms by (simp add: handleFeedback_setup_def)

lemma nine_stored_facts:
  "st_feedbackData (storage nine_stored) = Some (replicate 9 example_feedback)"
  "fetch offline_env = (\<lambda>body. NetworkError ''Failed to fetch'')"
  "now offline_env = 1700000000000"
  by (simp_all add: nine_stored_def offline_env_def example_env_def)

subsection \<open>Normalization\<close>

lemma is_space_blank: "is_space CHR '' ''"
  by (simp add: is_space_def char_code_def)

lemma sparse_Cons:
  "sparse (c # xs) \<longleftrightarrow>
     (is_space c \<longrightarrow> c = CHR '' '' \<and> (xs = [] \<or> \<not> is_space (hd xs))) \<and> sparse xs"
  by (cases xs) auto

lemma collapse_ws_empty: "collapse_ws t = [] \<longleftrightarrow> t = []"
  by (cases t) auto

lemma collapse_ws_hd:
  "t \<noteq> [] \<Longrightarrow> \<not> is_space (hd t) \<Longrightarrow> \<not> is_space (hd (collapse_ws t))"
  by (cases t) auto

lemma sparse_collapse_ws: "sparse (collapse_ws t)"
proof (induction t rule: collapse_ws.induct)
  case 1
  show ?case by simp
next
  case (2 c cs)
  show ?case
  proof (cases "is_space c")
    case True
    let ?rest = "dropWhile is_space cs"
    have "collapse_ws ?rest = [] \<or> \<not> is_space (hd (collapse_ws ?rest))"
    proof (cases "?rest = []")
      case True
      then have "collapse_ws ?rest = []"
        by (simp only: collapse_ws.simps)
      then show ?thesis by blast
    next
      case False
      then have "\<not> is_space (hd ?rest)"
        by (rule hd_dropWhile)
      with False show ?thesis
        by (simp add: collapse_ws_hd)
    qed
    with True "2.IH"(1) show ?thesis
      by (simp add: sparse_Cons)
  next
    case False
    with "2.IH"(2) show ?thesis
      by (simp add: sparse_Cons)
  qed
qed

lemma collapse_ws_sparse: "sparse v \<Longrightarrow> collapse_ws v = v"
  by (induction v rule: sparse.induct) auto

lemma sparse_append_left: "sparse (xs @ ys) \<Longrightarrow> sparse xs"
proof (induction xs)
  case Nil
  show ?case by simp
next
  case (Cons c xs)
  then show ?case
    by (cases xs) (auto simp: sparse_Cons)
qed

lemma sparse_append_right: "sparse (xs @ ys) \<Longrightarrow> sparse ys"
  by (induction xs) (auto simp: sparse_Cons)

lemma rev_dropWhile_split:
  "w = rev (dropWhile P (rev w)) @ rev (takeWhile P (rev w))"
  by (metis rev_append rev_rev_ident takeWhile_dropWhile_id)

lemma dropWhile_trim_split:
  "dropWhile is_space u = trim u @ rev (takeWhile is_space (rev (dropWhile is_space u)))"
  unfolding trim_def by (rule rev_dropWhile_split)

lemma trim_split:
  "\<exists>before behind. u = before @ trim u @ behind"
proof -
  have "u = takeWhile is_space u @ dropWhile is_space u"
    by simp
  with dropWhile_trim_split [of u] show ?thesis by metis
qed

lemma sparse_trim: "sparse u \<Longrightarrow> sparse (trim u)"
  using trim_split [of u] sparse_append_left sparse_append_right by metis

lemma dropWhile_trim: "dropWhile is_space (trim u) = trim u"
proof (cases "trim u")
  case Nil
  then show ?thesis by simp
next
  case (Cons c cs)
  let ?w = "dropWhile is_space u"
  note w = dropWhile_trim_split [of u]
  from w Cons have "?w \<noteq> []" and "hd ?w = c"
    by (metis append_is_Nil_conv list.distinct(1), metis hd_append2 list.distinct(1) list.sel(1))
  then have "\<not> is_space c"
    using hd_dropWhile [of is_space u] by simp
  with Cons show ?thesis by simp
qed

lemma trim_idempotent: "trim (trim u) = trim u"
proof -
  have "trim (trim u) = rev (dropWhile is_space (rev (trim u)))"
    by (simp add: trim_def [of "trim u"] dropWhile_trim)
  also have "rev (trim u) = dropWhile is_space (rev (dropWhile is_space u))"
    by (simp add: trim_def)
  also have "rev (dropWhile is_space (dropWhile is_space (rev (dropWhile is_space u)))) = trim u"
    by (simp add: trim_def dropWhile_idem)
  finally show ?thesis .
qed

lemma normalize_text_idempotent: "normalize_text (normalize_text t) = normalize_text t"
proof -
  have "sparse (trim (collapse_ws t))"
    by (rule sparse_trim [OF sparse_collapse_ws])
  then have "collapse_ws (trim (collapse_ws t)) = trim (collapse_ws t)"
    by (rule collapse_ws_sparse)
  then show ?thesis
    by (simp add: normalize_text_def trim_idempotent)
qed

subsection \<open>Claims\<close>

text \<open>
  C1 (as stated). Scanning a text twice invokes the engine at most once in total. The
  background script keeps no results: after the two scans of a text with one sentence the
  classifier has been called twice.
\<close>

theorem scan_twice_one_invocation_counterexample:
  "\<not> length (engineCalls (snd (handleAnalyzeText example_env
         (snd (handleAnalyzeText example_env example_loaded example_text)) example_text)))
      \<le> length (engineCalls example_loaded) + 1"
proof -
  let ?s1 = "snd (handleAnalyzeText example_env example_loaded example_text)"
  note first = handleAnalyzeText_loaded [OF example_loaded_facts(1,2), of example_env example_text]
  have "engineCalls (snd (handleAnalyzeText example_env ?s1 example_text)) =
      engineCalls ?s1 @ eligible_sentences example_text"
    by (rule handleAnalyzeText_loaded(2) [OF first(4) first(3)])
  then show ?thesis
    by (simp add: first(2) example_loaded_facts(3) eligible_example_text)
qed

text \<open>
  C1 (amended). With the model loaded, scanning a text twice returns the same list of results
  both times, and each of the two scans calls the classifier once for every sentence whose
  trimmed length is at least 15: nothing is kept from the first scan.
\<close>

theorem scan_twice_same_results_engine_again:
  assumes "modelLoaded s" and "classifier s = Some c"
  shows "fst (handleAnalyzeText e (snd (handleAnalyzeText e s text)) text) =
           fst (handleAnalyzeText e s text) \<and>
         fst (handleAnalyzeText e s text) = Inr (analysis_of c text) \<and>
         engineCalls (snd (handleAnalyzeText e s text)) =
           engineCalls s @ eligible_sentences text \<and>
         engineCalls (snd (handleAnalyzeText e (snd (handleAnalyzeText e s text)) text)) =
           engineCalls s @ eligible_sentences text @ eligible_sentences text"
proof -
  let ?s1 = "snd (handleAnalyzeText e s text)"
  have first: "fst (handleAnalyzeText e s text) = Inr (analysis_of c text)"
    and calls1: "engineCalls ?s1 = engineCalls s @ eligible_sentences text"
    and loaded1: "modelLoaded ?s1" and classifier1: "classifier ?s1 = Some c"
    using handleAnalyzeText_loaded [OF assms] by simp_all
  have "fst (handleAnalyzeText e ?s1 text) = Inr (analysis_of c text)"
    and "engineCalls (snd (handleAnalyzeText e ?s1 text)) =
           engineCalls ?s1 @ eligible_sentences text"
    using handleAnalyzeText_loaded [OF loaded1 classifier1] by simp_all
  with first calls1 show ?thesis by simp
qed

theorem scan_twice_same_results_engine_again_witness:
  "modelLoaded example_loaded \<and> classifier example_loaded = Some example_classifier \<and>
   fst (handleAnalyzeText example_env
          (snd (handleAnalyzeText example_env example_loaded example_text)) example_text) =
     fst (handleAnalyzeText example_env example_loaded example_text) \<and>
   engineCalls (snd (handleAnalyzeText example_env
          (snd (handleAnalyzeText example_env example_loaded example_text)) example_text)) =
     [warmUpText, example_text, example_text]"
  using scan_twice_same_results_engine_again [OF example_loaded_facts(1,2), of example_env example_text]
  by (simp add: example_loaded_facts eligible_example_text)




text \<open>
  C4 (as stated). After more than \<open>cacheCapacity\<close> insertions with distinct keys the store
  holds at most \<open>cacheCapacity\<close> entries. The server's array has no capacity: with the
  capacity 2 of the specification's example, three posts with three different hashes leave
  three entries.
\<close>

theorem feedback_store_bound_counterexample:
  "map e_text_hash (post_all three_posts []) = [JStr ''a1'', JStr ''b2'', JStr ''c3''] \<and>
   \<not> length (post_all three_posts []) \<le> 2"
  by (simp add: three_posts_def post_feedback_def or_default_def Let_def)

text \<open>
  C4 (amended). The server's feedback store has no capacity and never evicts: every post
  appends one entry and reports the new length, so after any sequence of posts the store is
  the old store followed by one entry for each post, and it grows without bound.
\<close>

theorem feedback_store_grows_without_eviction:
  "length (post_all requests feedback) = length feedback + length requests \<and>
   take (length feedback) (post_all requests feedback) = feedback \<and>
   fst (post_feedback isoNow data feedback) =
     JObj [(''status'', JStr ''received''), (''count'', JNum (of_nat (length feedback + 1)))] \<and>
   length (snd (post_feedback isoNow data feedback)) = length feedback + 1"
proof -
  obtain added where "post_all requests feedback = feedback @ added"
    and "length added = length requests"
    using post_all_extends by blast
  moreover obtain entry where "snd (post_feedback isoNow data feedback) = feedback @ [entry]"
    using post_feedback_appends by blast
  ultimately show ?thesis
    by (simp add: post_feedback_count)
qed

text \<open>
  C5. When the load of the model fails, the marker of the load in flight (the promise in
  \<open>modelLoadingPromise\<close>) should be cleared so that a later request loads again. It is
  not: after a load that failed while the network was down, a scan requested when the
  pipeline would load again is answered with the old failure, nothing is loaded and the
  state does not change.
\<close>

theorem failed_load_is_never_retried:
  "fst (initializeModel offline_env initial_state) = Inl (Error ''Failed to fetch'') \<and>
   classifier (snd (initializeModel offline_env initial_state)) = None \<and>
   modelLoadingPromise (snd (initializeModel offline_env initial_state)) =
     Some (Inl (Error ''Failed to fetch'')) \<and>
   pipeline example_env = Inr example_classifier \<and>
   handleAnalyzeText example_env (snd (initializeModel offline_env initial_state)) example_text =
     (Inl (Error ''Failed to fetch''), snd (initializeModel offline_env initial_state))"
proof -
  let ?s = "snd (initializeModel offline_env initial_state)"
  have "\<not> modelLoaded ?s" and "modelLoadingPromise ?s = Some (Inl (Error ''Failed to fetch''))"
    by (simp_all add: offline_load)
  then have stuck: "handleAnalyzeText example_env ?s example_text =
      (Inl (Error ''Failed to fetch''), ?s)"
    by (rule handleAnalyzeText_after_failed_load)
  have failed: "fst (initializeModel offline_env initial_state) = Inl (Error ''Failed to fetch'')"
    and marker: "modelLoadingPromise ?s = Some (Inl (Error ''Failed to fetch''))"
    by (simp_all add: offline_load)
  have unloaded: "classifier ?s = None"
    unfolding offline_load by (simp add: initial_state_def)
  have would_load: "pipeline example_env = Inr example_classifier"
    by (simp add: example_env_def)
  from failed unloaded marker would_load stuck show ?thesis
    by blast
qed

text \<open>
  C6. A failed write to the backend should neither fail the request nor remove what is
  stored locally. The request does succeed, but the stored items are removed: with nine
  items stored and the backend unreachable, the tenth feedback is accepted and the storage
  is then empty, none of the ten items having been delivered. The \<open>handleFeedback\<close> that the
  setup script writes keeps the ten items in that situation.
\<close>

theorem failed_send_clears_stored_feedback:
  "fetch offline_env (map (\<lambda>f. f\<lparr>fb_url := anonymizeURL offline_env (fb_url f)\<rparr>)
      (replicate 9 example_feedback @ [example_feedback\<lparr>fb_timestamp := now offline_env\<rparr>])) =
     NetworkError ''Failed to fetch'' \<and>
   fst (handleFeedback offline_env nine_stored example_feedback) = Inr () \<and>
   st_feedbackData (storage (snd (handleFeedback offline_env nine_stored example_feedback))) =
     Some [] \<and>
   st_feedbackData (storage (snd (handleFeedback_setup offline_env nine_stored example_feedback))) =
     Some (replicate 9 example_feedback @ [example_feedback\<lparr>fb_timestamp := 1700000000000\<rparr>])"
proof -
  have nine: "9 \<le> length (replicate 9 example_feedback)"
    by simp
  have "handleFeedback offline_env nine_stored example_feedback =
      (Inr (), nine_stored\<lparr>storage := (storage nine_stored)\<lparr>st_feedbackData := Some []\<rparr>\<rparr>)"
    by (rule handleFeedback_tenth [OF nine_stored_facts(1) nine])
  moreover have "handleFeedback_setup offline_env nine_stored example_feedback =
      (Inr (), nine_stored\<lparr>storage := (storage nine_stored)\<lparr>st_feedbackData :=
         Some (replicate 9 example_feedback @
               [example_feedback\<lparr>fb_timestamp := now offline_env\<rparr>])\<rparr>\<rparr>)"
    by (rule handleFeedback_setup_offline [OF nine_stored_facts(1) nine])
       (simp add: nine_stored_facts(2))
  ultimately show ?thesis
    by (simp add: nine_stored_facts)
qed

text \<open>
  C7 (as stated). The scan operation returns a record with the highlight list, the ruleset
  version and a \<open>servedFromCache\<close> flag. \<open>handleAnalyzeText\<close> resolves to a bare array of
  result objects, and the listener wraps it as \<open>{success, result}\<close>: neither is such a
  record.
\<close>

theorem scan_returns_record_counterexample:
  "fst (handleAnalyzeText example_env example_loaded example_text) =
     Inr [\<lparr>r_text = ''This sentence is long enough.'', r_probability = 12 / 25,
           r_level = medium, r_modelScore = 9 / 10, r_modelLabel = ''POSITIVE''\<rparr>] \<and>
   \<not> is_getOrScan_record (results_json
     [\<lparr>r_text = ''This sentence is long enough.'', r_probability = 12 / 25,
       r_level = medium, r_modelScore = 9 / 10, r_modelLabel = ''POSITIVE''\<rparr>]) \<and>
   \<not> is_getOrScan_record (analyzeText_reply (Inr
     [\<lparr>r_text = ''This sentence is long enough.'', r_probability = 12 / 25,
       r_level = medium, r_modelScore = 9 / 10, r_modelLabel = ''POSITIVE''\<rparr>]))"
  using handleAnalyzeText_loaded(1) [OF example_loaded_facts(1,2), of example_env example_text]
  by (simp add: analysis_example_text is_getOrScan_record_def results_json_def
      analyzeText_reply_def)

text \<open>
  C7 (amended). With the model loaded, \<open>handleAnalyzeText(text)\<close> returns, for every input
  text, an array with one object for each sentence of trimmed length at least 15 that the
  classifier answers; each object has exactly the properties \<open>text\<close>, \<open>probability\<close>,
  \<open>level\<close>, \<open>modelScore\<close> and \<open>modelLabel\<close>, with the classifier's score and label for
  that sentence, the probability computed from them and the level of that probability. The
  listener replies \<open>{success: true, result}\<close> with that array. There is no ruleset version
  and no \<open>servedFromCache\<close> flag.
\<close>

theorem scan_returns_result_array:
  assumes "modelLoaded s" and "classifier s = Some c"
  shows "fst (handleAnalyzeText e s text) = Inr (analysis_of c text) \<and>
         analyzeText_reply (fst (handleAnalyzeText e s text)) =
           JObj [(''success'', JBool True),
                 (''result'', JArr (map result_json (analysis_of c text)))] \<and>
         \<not> is_getOrScan_record (results_json (analysis_of c text)) \<and>
         \<not> is_getOrScan_record (analyzeText_reply (fst (handleAnalyzeText e s text))) \<and>
         (\<forall>r \<in> set (analysis_of c text).
            keys_of (result_json r) =
              [''text'', ''probability'', ''level'', ''modelScore'', ''modelLabel''] \<and>
            r_text r \<in> set (eligible_sentences text) \<and>
            c (r_text r) = Inr (r_modelScore r, r_modelLabel r) \<and>
            r_probability r = calculateAIProbability (r_text r) (r_modelScore r) \<and>
            r_level r = level_of (r_probability r))"
proof -
  have returned: "fst (handleAnalyzeText e s text) = Inr (analysis_of c text)"
    by (rule handleAnalyzeText_loaded(1) [OF assms])
  have reply: "analyzeText_reply (Inr (analysis_of c text)) =
      JObj [(''success'', JBool True), (''result'', JArr (map result_json (analysis_of c text)))]"
    by (simp add: analyzeText_reply_def results_json_def)
  have no_record: "\<not> is_getOrScan_record (results_json (analysis_of c text))"
    by (simp add: is_getOrScan_record_def results_json_def)
  have no_record_reply: "\<not> is_getOrScan_record (analyzeText_reply (Inr (analysis_of c text)))"
    by (simp add: is_getOrScan_record_def reply)
  have "keys_of (result_json r) =
      [''text'', ''probability'', ''level'', ''modelScore'', ''modelLabel'']" for r
    by (simp add: result_json_def)
  with returned reply no_record no_record_reply analysis_of_member [of _ c "text"]
  show ?thesis by simp
qed

theorem scan_returns_result_array_witness:
  "modelLoaded example_loaded \<and> classifier example_loaded = Some example_classifier \<and>
   analyzeText_reply (fst (handleAnalyzeText example_env example_loaded example_text)) =
     JObj [(''success'', JBool True),
           (''result'', JArr [JObj [(''text'', JStr ''This sentence is long enough.''),
                                    (''probability'', JNum (12 / 25)),
                                    (''level'', JStr ''medium''),
                                    (''modelScore'', JNum (9 / 10)),
                                    (''modelLabel'', JStr ''POSITIVE'')]])]"
  using scan_returns_result_array [OF example_loaded_facts(1,2), of example_env example_text]
  by (simp add: example_loaded_facts analysis_example_text result_json_def
      analyzeText_reply_def results_json_def)

text \<open>
  C8 (as stated). Every highlight of the returned sequence has offsets with
  \<open>0 <= startOffset < endOffset <= len(text)\<close>. The objects returned carry no offsets at
  all.
\<close>

theorem highlight_offsets_counterexample:
  "fst (handleAnalyzeText example_env example_loaded example_text) =
     Inr [\<lparr>r_text = ''This sentence is long enough.'', r_probability = 12 / 25,
           r_level = medium, r_modelScore = 9 / 10, r_modelLabel = ''POSITIVE''\<rparr>] \<and>
   \<not> offsets_valid (length example_text) (result_json
     \<lparr>r_text = ''This sentence is long enough.'', r_probability = 12 / 25,
      r_level = medium, r_modelScore = 9 / 10, r_modelLabel = ''POSITIVE''\<rparr>)"
  using handleAnalyzeText_loaded(1) [OF example_loaded_facts(1,2), of example_env example_text]
  by (simp add: analysis_example_text offsets_valid_def result_json_def)

text \<open>
  C8 (amended). With the model loaded, the objects returned for a text carry neither a
  start nor an end offset. They are ordered by position in the text: their texts are, in
  order, trimmed sentences of the text, picked without reordering; and the sentences that
  the text is split into are stretches \<open>[a, b)\<close> of it with \<open>a < b <= len(text)\<close>, each
  ending no later than the next one starts, so ascending and without overlap.
\<close>

theorem results_follow_sentence_order:
  assumes "modelLoaded s" and "classifier s = Some c"
  shows "fst (handleAnalyzeText e s text) = Inr (analysis_of c text) \<and>
         (\<forall>r \<in> set (analysis_of c text).
            get_prop (result_json r) ''startOffset'' = None \<and>
            get_prop (result_json r) ''endOffset'' = None) \<and>
         subseq (map r_text (analysis_of c text)) (map trim (match_sentences text)) \<and>
         map (slice text) (sentence_spans text) = match_sentences text \<and>
         list_all (\<lambda>(a, b). a < b \<and> b \<le> length text) (sentence_spans text) \<and>
         sorted_wrt (\<lambda>(a, b) (a', b'). b \<le> a') (sentence_spans text)"
proof -
  have "fst (handleAnalyzeText e s text) = Inr (analysis_of c text)"
    by (rule handleAnalyzeText_loaded(1) [OF assms])
  moreover have "get_prop (result_json r) ''startOffset'' = None \<and>
      get_prop (result_json r) ''endOffset'' = None" for r
    by (simp add: result_json_def)
  ultimately show ?thesis
    using analysis_of_subseq [of c "text"] sentence_spans_props [of "text"] by simp
qed

theorem results_follow_sentence_order_witness:
  "modelLoaded example_loaded \<and> classifier example_loaded = Some example_classifier \<and>
   fst (handleAnalyzeText example_env example_loaded two_sentences) =
     Inr (analysis_of example_classifier two_sentences) \<and>
   map r_text (analysis_of example_classifier two_sentences) =
     [''This sentence is long enough.'', ''Thus we leverage a robust paradigm!''] \<and>
   sentence_spans two_sentences = [(0, 29), (29, 65)] \<and>
   map (slice two_sentences) [(0, 29), (29, 65)] = match_sentences two_sentences"
proof -
  have texts: "map r_text (analysis_of example_classifier two_sentences) =
      [''This sentence is long enough.'', ''Thus we leverage a robust paradigm!'']"
    by code_simp
  have spans: "sentence_spans two_sentences = [(0, 29), (29, 65)]"
    by code_simp
  show ?thesis
    using results_follow_sentence_order [OF example_loaded_facts(1,2), of example_env
        two_sentences]
    by (simp add: example_loaded_facts texts spans)
qed

text \<open>
  C9. Normalization is defined for every text, the empty one included, and normalizing a
  normalized text changes nothing; key derivation is a function of the normalized text:
  two texts with the same normalization have the same key.
\<close>

theorem normalize_idempotent_deriveKey_determined:
  "normalize_text (normalize_text t) = normalize_text t \<and>
   normalize_text [] = [] \<and>
   deriveKey hash t = hash (normalize_text t) \<and>
   (normalize_text t1 = normalize_text t2 \<longrightarrow> deriveKey hash t1 = deriveKey hash t2)"
  by (simp add: normalize_text_idempotent deriveKey_def) (simp add: normalize_text_def trim_def)

theorem normalize_idempotent_deriveKey_determined_witness:
  "normalize_text ''Hello   world.'' = normalize_text ''  Hello world. '' \<and>
   normalize_text ''  Hello world. '' = ''Hello world.'' \<and>
   normalize_text (normalize_text ''  Hello world. '') = ''Hello world.'' \<and>
   deriveKey length ''Hello   world.'' = deriveKey length ''  Hello world. ''"
proof -
  have first: "normalize_text ''Hello   world.'' = ''Hello world.''"
    by code_simp
  have second: "normalize_text ''  Hello world. '' = ''Hello world.''"
    by code_simp
  show ?thesis
    using normalize_idempotent_deriveKey_determined
      [of "''  Hello world. ''" length "''Hello   world.''" "''  Hello world. ''"]
    by (simp add: first second)
qed



end
